theory Spec2Isabelle
  imports Main "HOL-Library.Sublist" "HOL-Library.Word"
begin

unbundle bit_operations_syntax

section \<open>Strings, positions and errors\<close>

text \<open>
  A JavaScript string is modelled by the list of the bytes of its UTF-8 encoding, one
  \<^typ>\<open>char\<close> per byte. Every operation of \<^verbatim>\<open>generator.ts\<close> compares against ASCII
  text only (\<^verbatim>\<open>startsWith('chr')\<close>, \<^verbatim>\<open>=== 'M'\<close>, the colons of the pattern), and a byte
  below 128 occurs in a UTF-8 text only as the ASCII character itself, so these
  operations act on the bytes as they act on the UTF-16 code units. Strings with unpaired
  surrogates have no UTF-8 form and are outside the model.
\<close>

type_synonym byte = nat

text \<open>
  \<^verbatim>\<open>crypto.createHash('sha512').update(data)\<close> hashes the UTF-8 encoding of \<^verbatim>\<open>data\<close>:
  the bytes of the string, read as numbers.
\<close>

definition utf8 :: "string \<Rightarrow> byte list" where
  "utf8 s = map of_char s"

text \<open>
  The parameter \<^verbatim>\<open>pos: number | string\<close>, which the source uses only as \<^verbatim>\<open>${pos}\<close> in a
  template literal. A string is interpolated as it is. A number is modelled for the
  non-negative integers below \<open>2\<^sup>5\<^sup>3\<close>, the values of \<^typ>\<open>53 word\<close>: each of them is
  a double, and is printed in plain decimal. Other numbers (negative, fractional,
  beyond \<open>2\<^sup>5\<^sup>3\<close>, \<^verbatim>\<open>NaN\<close>) are not values of \<^verbatim>\<open>PosNumber\<close>; a call with one of them
  does what the call with the string of its printed form does.
\<close>

datatype position = PosNumber "53 word" | PosString string

fun digits :: "nat \<Rightarrow> string" where
  "digits n =
     (if n < 10 then [''0123456789'' ! n]
      else digits (n div 10) @ [''0123456789'' ! (n mod 10)])"

declare digits.simps [simp del]

definition number_text :: "53 word \<Rightarrow> string" where
  "number_text n = digits (unat n)"

fun pos_text :: "position \<Rightarrow> string" where
  "pos_text (PosNumber n) = number_text n"
| "pos_text (PosString s) = s"

text \<open>A thrown \<^verbatim>\<open>Error\<close> with its message.\<close>

datatype error = Error string

section \<open>SHA-512\<close>

text \<open>
  The hash primitive of Node's \<^verbatim>\<open>crypto\<close> module, written out after FIPS 180-4. A 64-bit
  word is a natural number below \<open>2\<^sup>6\<^sup>4\<close>; addition wraps around explicitly.
\<close>

type_synonym u64 = nat

definition add64 :: "u64 \<Rightarrow> u64 \<Rightarrow> u64" where
  "add64 x y = take_bit 64 (x + y)"

definition rotr :: "nat \<Rightarrow> u64 \<Rightarrow> u64" where
  "rotr n x = drop_bit n x OR push_bit (64 - n) (take_bit n x)"

definition shr :: "nat \<Rightarrow> u64 \<Rightarrow> u64" where
  "shr n x = drop_bit n x"

definition not64 :: "u64 \<Rightarrow> u64" where
  "not64 x = 18446744073709551615 - x"

definition Ch :: "u64 \<Rightarrow> u64 \<Rightarrow> u64 \<Rightarrow> u64" where
  "Ch x y z = (x AND y) XOR (not64 x AND z)"

definition Maj :: "u64 \<Rightarrow> u64 \<Rightarrow> u64 \<Rightarrow> u64" where
  "Maj x y z = (x AND y) XOR (x AND z) XOR (y AND z)"

definition Sigma0 :: "u64 \<Rightarrow> u64" where
  "Sigma0 x = rotr 28 x XOR rotr 34 x XOR rotr 39 x"

definition Sigma1 :: "u64 \<Rightarrow> u64" where
  "Sigma1 x = rotr 14 x XOR rotr 18 x XOR rotr 41 x"

definition sigma0 :: "u64 \<Rightarrow> u64" where
  "sigma0 x = rotr 1 x XOR rotr 8 x XOR shr 7 x"

definition sigma1 :: "u64 \<Rightarrow> u64" where
  "sigma1 x = rotr 19 x XOR rotr 61 x XOR shr 6 x"

text \<open>
  The round constants (the first 64 bits of the fractional parts of the cube roots of the
  first 80 primes) and the initial hash value (likewise for the square roots of the first
  8 primes), in decimal.
\<close>

definition K512 :: "u64 list" where
  "K512 =
     [4794697086780616226, 8158064640168781261, 13096744586834688815,
      16840607885511220156, 4131703408338449720, 6480981068601479193,
      10538285296894168987, 12329834152419229976, 15566598209576043074,
      1334009975649890238, 2608012711638119052, 6128411473006802146,
      8268148722764581231, 9286055187155687089, 11230858885718282805,
      13951009754708518548, 16472876342353939154, 17275323862435702243,
      1135362057144423861, 2597628984639134821, 3308224258029322869,
      5365058923640841347, 6679025012923562964, 8573033837759648693,
      10970295158949994411, 12119686244451234320, 12683024718118986047,
      13788192230050041572, 14330467153632333762, 15395433587784984357,
      489312712824947311, 1452737877330783856, 2861767655752347644,
      3322285676063803686, 5560940570517711597, 5996557281743188959,
      7280758554555802590, 8532644243296465576, 9350256976987008742,
      10552545826968843579, 11727347734174303076, 12113106623233404929,
      14000437183269869457, 14369950271660146224, 15101387698204529176,
      15463397548674623760, 17586052441742319658, 1182934255886127544,
      1847814050463011016, 2177327727835720531, 2830643537854262169,
      3796741975233480872, 4115178125766777443, 5681478168544905931,
      6601373596472566643, 7507060721942968483, 8399075790359081724,
      8693463985226723168, 9568029438360202098, 10144078919501101548,
      10430055236837252648, 11840083180663258601, 13761210420658862357,
      14299343276471374635, 14566680578165727644, 15097957966210449927,
      16922976911328602910, 17689382322260857208, 500013540394364858,
      748580250866718886, 1242879168328830382, 1977374033974150939,
      2944078676154940804, 3659926193048069267, 4368137639120453308,
      4836135668995329356, 5532061633213252278, 6448918945643986474,
      6902733635092675308, 7801388544844847127]"

type_synonym hstate = "u64 \<times> u64 \<times> u64 \<times> u64 \<times> u64 \<times> u64 \<times> u64 \<times> u64"

definition H512 :: hstate where
  "H512 =
     (7640891576956012808, 13503953896175478587, 4354685564936845355,
      11912009170470909681, 5840696475078001361, 11170449401992604703,
      2270897969802886507, 6620516959819538809)"

text \<open>Big-endian conversion between byte strings and numbers.\<close>

definition be_word :: "byte list \<Rightarrow> nat" where
  "be_word bs = foldl (\<lambda>acc b. acc * 256 + b) 0 bs"

fun be_bytes :: "nat \<Rightarrow> nat \<Rightarrow> byte list" where
  "be_bytes 0 v = []"
| "be_bytes (Suc n) v = take_bit 8 (drop_bit (8 * n) v) # be_bytes n v"

fun chunks :: "nat \<Rightarrow> 'a list \<Rightarrow> 'a list list" where
  "chunks n xs = (if n = 0 \<or> xs = [] then [] else take n xs # chunks n (drop n xs))"

declare chunks.simps [simp del]

text \<open>
  Padding: the byte \<open>0x80\<close>, zero bytes up to 112 modulo 128, and the length of the
  message in bits as a 128-bit big-endian number.
\<close>

definition pad :: "byte list \<Rightarrow> byte list" where
  "pad m =
     m @ [0x80] @ replicate ((239 - length m mod 128) mod 128) 0 @ be_bytes 16 (8 * length m)"

text \<open>The message schedule: words 16 to 79 from the 16 words of the block.\<close>

definition next_word :: "u64 list \<Rightarrow> nat \<Rightarrow> u64" where
  "next_word w t =
     add64 (add64 (add64 (sigma1 (w ! (t - 2))) (w ! (t - 7))) (sigma0 (w ! (t - 15))))
       (w ! (t - 16))"

definition schedule_step :: "u64 list \<Rightarrow> nat \<Rightarrow> u64 list" where
  "schedule_step w t = w @ [next_word w t]"

definition schedule :: "u64 list \<Rightarrow> u64 list" where
  "schedule m = foldl schedule_step m [16..<80]"

text \<open>One round on the working variables \<open>a\<close> to \<open>h\<close>, and the 80 rounds of a block.\<close>

fun T1 :: "hstate \<Rightarrow> u64 \<Rightarrow> u64 \<Rightarrow> u64" where
  "T1 (a, b, c, d, e, f, g, h) k w = add64 (add64 (add64 (add64 h (Sigma1 e)) (Ch e f g)) k) w"

fun T2 :: "hstate \<Rightarrow> u64" where
  "T2 (a, b, c, d, e, f, g, h) = add64 (Sigma0 a) (Maj a b c)"

fun rotate_in :: "hstate \<Rightarrow> u64 \<Rightarrow> u64 \<Rightarrow> hstate" where
  "rotate_in (a, b, c, d, e, f, g, h) t1 t2 = (add64 t1 t2, a, b, c, add64 d t1, e, f, g)"

fun round :: "hstate \<Rightarrow> u64 \<times> u64 \<Rightarrow> hstate" where
  "round s (k, w) = rotate_in s (T1 s k w) (T2 s)"

fun add_state :: "hstate \<Rightarrow> hstate \<Rightarrow> hstate" where
  "add_state (a, b, c, d, e, f, g, h) (a', b', c', d', e', f', g', h') =
     (add64 a a', add64 b b', add64 c c', add64 d d',
      add64 e e', add64 f f', add64 g g', add64 h h')"

definition compress :: "hstate \<Rightarrow> byte list \<Rightarrow> hstate" where
  "compress hs block =
     add_state hs (foldl round hs (zip K512 (schedule (map be_word (chunks 8 block)))))"

fun digest_bytes :: "hstate \<Rightarrow> byte list" where
  "digest_bytes (a, b, c, d, e, f, g, h) = concat (map (be_bytes 8) [a, b, c, d, e, f, g, h])"

definition sha512 :: "byte list \<Rightarrow> byte list" where
  "sha512 m = digest_bytes (foldl compress H512 (chunks 128 (pad m)))"

section \<open>Base64\<close>

text \<open>
  \<^verbatim>\<open>Buffer.toString('base64')\<close>: three bytes give four characters of the standard
  alphabet; one or two remaining bytes are padded with \<^verbatim>\<open>=\<close>.
\<close>

definition b64_alphabet :: string where
  "b64_alphabet = ''ABCDEFGHIJKLMNOPQRSTUVWXYZabcdefghijklmnopqrstuvwxyz0123456789+/''"

definition group24 :: "byte \<Rightarrow> byte \<Rightarrow> byte \<Rightarrow> nat" where
  "group24 b0 b1 b2 = b0 * 65536 + b1 * 256 + b2"

definition sextet :: "nat \<Rightarrow> nat \<Rightarrow> char" where
  "sextet n i = b64_alphabet ! ((n div 64 ^ i) mod 64)"

fun base64 :: "byte list \<Rightarrow> string" where
  "base64 [] = []"
| "base64 [b0] =
     [sextet (group24 b0 0 0) 3, sextet (group24 b0 0 0) 2, CHR ''='', CHR ''='']"
| "base64 [b0, b1] =
     [sextet (group24 b0 b1 0) 3, sextet (group24 b0 b1 0) 2, sextet (group24 b0 b1 0) 1,
      CHR ''='']"
| "base64 (b0 # b1 # b2 # bs) =
     [sextet (group24 b0 b1 b2) 3, sextet (group24 b0 b1 b2) 2, sextet (group24 b0 b1 b2) 1,
      sextet (group24 b0 b1 b2) 0] @ base64 bs"

text \<open>
  \<^verbatim>\<open>replace(/\+/g, '-')\<close> and \<^verbatim>\<open>replace(/\//g, '_')\<close> replace every occurrence of one
  character; \<^verbatim>\<open>replace(/=+$/, '')\<close> removes the run of \<^verbatim>\<open>=\<close> at the end.
\<close>

definition replace_all :: "char \<Rightarrow> char \<Rightarrow> string \<Rightarrow> string" where
  "replace_all a b s = map (\<lambda>c. if c = a then b else c) s"

definition strip_padding :: "string \<Rightarrow> string" where
  "strip_padding s = rev (dropWhile (\<lambda>c. c = CHR ''='') (rev s))"

definition url_alphabet :: string where
  "url_alphabet = ''ABCDEFGHIJKLMNOPQRSTUVWXYZabcdefghijklmnopqrstuvwxyz0123456789-_''"

section \<open>The generator\<close>

definition normalizeChromosome :: "string \<Rightarrow> string" where
  "normalizeChromosome chrom =
     (let chrom = (if prefix ''chr'' chrom then drop 3 chrom else chrom) in
      if chrom = ''M'' then ''MT''
      else if chrom = ''MT'' then ''MT''
      else if chrom = ''Un'' then ''UN''
      else chrom)"

text \<open>
  \<^verbatim>\<open>generateVrsId\<close>. The body of the source sits in a \<^verbatim>\<open>try\<close> block whose handler rethrows;
  none of the operations in the block throws on string arguments, so the function always
  returns a string. The fifth parameter \<^verbatim>\<open>assembly\<close> defaults to \<^verbatim>\<open>'GRCh38'\<close>.
\<close>

definition generateVrsId :: "string \<Rightarrow> position \<Rightarrow> string \<Rightarrow> string \<Rightarrow> string \<Rightarrow> string" where
  "generateVrsId chrom pos ref alt assembly =
     (let normalizedChrom = normalizeChromosome chrom in
      if alt = ''*'' \<or> ref = ''*'' then
        ''ga4gh:VA:SPECIAL:'' @ normalizedChrom @ ''-'' @ pos_text pos @ ''-'' @ ref @ ''-'' @ alt
      else
        let data = normalizedChrom @ '':'' @ pos_text pos @ '':'' @ ref @ '':'' @ alt;
            hash = sha512 (utf8 data);
            truncatedHash = take 24 hash;
            b64Digest = base64 truncatedHash;
            b64Digest = strip_padding (replace_all CHR ''/'' CHR ''_''
                          (replace_all CHR ''+'' CHR ''-'' b64Digest))
        in ''ga4gh:VA:'' @ normalizedChrom @ '':'' @ b64Digest)"

definition generateVrsId_default :: "string \<Rightarrow> position \<Rightarrow> string \<Rightarrow> string \<Rightarrow> string" where
  "generateVrsId_default chrom pos ref alt = generateVrsId chrom pos ref alt ''GRCh38''"

text \<open>The digest segment that \<^const>\<open>generateVrsId\<close> computes from the payload.\<close>

definition url_safe_digest :: "string \<Rightarrow> string" where
  "url_safe_digest data =
     strip_padding (replace_all CHR ''/'' CHR ''_''
       (replace_all CHR ''+'' CHR ''-'' (base64 (take 24 (sha512 (utf8 data))))))"

section \<open>Validation and parsing\<close>

text \<open>
  The pattern \<^verbatim>\<open>/^ga4gh:VA:([^:]+):(.+)$/\<close>. Without the \<^verbatim>\<open>s\<close> flag the dot matches no
  line terminator: line feed, carriage return, U+2028 and U+2029, the last two being the
  byte sequences \<open>E2 80 A8\<close> and \<open>E2 80 A9\<close> in UTF-8. Without the \<^verbatim>\<open>m\<close> flag \<^verbatim>\<open>$\<close> is the
  end of the input.
\<close>

fun has_line_terminator :: "string \<Rightarrow> bool" where
  "has_line_terminator [] = False"
| "has_line_terminator (c # cs) =
     (c = CHR 0x0A \<or> c = CHR 0x0D
      \<or> prefix [CHR 0xE2, CHR 0x80, CHR 0xA8] (c # cs)
      \<or> prefix [CHR 0xE2, CHR 0x80, CHR 0xA9] (c # cs)
      \<or> has_line_terminator cs)"

text \<open>
  The match of the pattern, with its two groups. After the literal prefix the first group
  takes the longest run of characters other than a colon; a shorter run could not be
  followed by the colon the pattern asks for next.
\<close>

definition vrs_pattern_match :: "string \<Rightarrow> (string \<times> string) option" where
  "vrs_pattern_match s =
     (if prefix ''ga4gh:VA:'' s then
        let rest = drop 9 s;
            group1 = takeWhile (\<lambda>c. c \<noteq> CHR '':'') rest;
            after = dropWhile (\<lambda>c. c \<noteq> CHR '':'') rest
        in if group1 \<noteq> [] \<and> after \<noteq> [] \<and> tl after \<noteq> [] \<and> \<not> has_line_terminator (tl after)
           then Some (group1, tl after) else None
      else None)"

definition isValidVrsId :: "string \<Rightarrow> bool" where
  "isValidVrsId vrsId = (if vrsId = [] then False else vrs_pattern_match vrsId \<noteq> None)"

record vrs_components =
  chromosome :: string
  digest :: string
  type :: string

definition parseVrsId :: "string \<Rightarrow> error + vrs_components" where
  "parseVrsId vrsId =
     (if \<not> isValidVrsId vrsId then Inl (Error (''Invalid VRS ID: '' @ vrsId))
      else case vrs_pattern_match vrsId of
        None \<Rightarrow> Inl (Error (''Failed to parse VRS ID: '' @ vrsId))
      | Some (group1, group2) \<Rightarrow> Inr \<lparr>chromosome = group1, digest = group2, type = ''VA''\<rparr>)"

definition getChromosomeFromVrsId :: "string \<Rightarrow> error + string" where
  "getChromosomeFromVrsId vrsId =
     (case parseVrsId vrsId of Inl e \<Rightarrow> Inl e | Inr components \<Rightarrow> Inr (chromosome components))"

section \<open>Storage routing\<close>

text \<open>
  \<^verbatim>\<open>String.prototype.toLowerCase\<close> is the case mapping of the JavaScript runtime, given by
  the Unicode standard and not by this repository: the two functions that call it take it
  as the parameter \<open>toLowerCase\<close>.
\<close>

definition getSqlTableForVariant :: "(string \<Rightarrow> string) \<Rightarrow> string \<Rightarrow> error + string" where
  "getSqlTableForVariant toLowerCase vrsId =
     (case getChromosomeFromVrsId vrsId of
        Inl e \<Rightarrow> Inl e
      | Inr chrom \<Rightarrow> Inr (''variants_chr'' @ toLowerCase chrom))"

text \<open>
  On a string of ASCII characters the case mapping replaces the capitals \<^verbatim>\<open>A\<close> to \<^verbatim>\<open>Z\<close> by
  \<^verbatim>\<open>a\<close> to \<^verbatim>\<open>z\<close> and leaves every other character. \<open>ascii_toLowerCase\<close> is this mapping;
  it stands for the runtime's function where an example on ASCII text is computed.
\<close>

definition ascii_lower_char :: "char \<Rightarrow> char" where
  "ascii_lower_char c =
     (case map_of (zip ''ABCDEFGHIJKLMNOPQRSTUVWXYZ'' ''abcdefghijklmnopqrstuvwxyz'') c of
        Some l \<Rightarrow> l | None \<Rightarrow> c)"

definition ascii_toLowerCase :: "string \<Rightarrow> string" where
  "ascii_toLowerCase s = map ascii_lower_char s"

record variant_query =
  query :: string
  params :: "(string \<times> string) list"

definition buildVariantQuery :: "(string \<Rightarrow> string) \<Rightarrow> string \<Rightarrow> error + variant_query" where
  "buildVariantQuery toLowerCase vrsId =
     (case getSqlTableForVariant toLowerCase vrsId of
        Inl e \<Rightarrow> Inl e
      | Inr tableName \<Rightarrow>
          (case getChromosomeFromVrsId vrsId of
             Inl e \<Rightarrow> Inl e
           | Inr chrom \<Rightarrow>
               Inr \<lparr>query = [CHR 0x0A] @ ''    SELECT *'' @ [CHR 0x0A]
                            @ ''    FROM public.'' @ tableName @ [CHR 0x0A]
                            @ ''    WHERE id = @vrsId'' @ [CHR 0x0A]
                            @ ''    AND chromosome = @chromosome'' @ [CHR 0x0A] @ ''  '',
                    params = [(''vrsId'', vrsId), (''chromosome'', chrom)]\<rparr>))"

section \<open>The pattern match\<close>

text \<open>
  \<^const>\<open>vrs_pattern_match\<close> succeeds exactly on the strings of the pattern's language, and
  returns the only split of such a string into the two groups.
\<close>

lemma vrs_pattern_match_SomeD:
  assumes "vrs_pattern_match s = Some (c, d)"
  shows "s = ''ga4gh:VA:'' @ c @ '':'' @ d \<and> c \<noteq> [] \<and> CHR '':'' \<notin> set c \<and> d \<noteq> []
         \<and> \<not> has_line_terminator d"
proof -
  let ?P = "\<lambda>ch. ch \<noteq> CHR '':''"
  let ?rest = "drop 9 s"
  from assms have pre: "prefix ''ga4gh:VA:'' s"
    by (simp add: vrs_pattern_match_def split: if_splits)
  from assms pre have c: "c = takeWhile ?P ?rest" and d: "d = tl (dropWhile ?P ?rest)"
    and ne: "c \<noteq> []" "dropWhile ?P ?rest \<noteq> []" "d \<noteq> []" "\<not> has_line_terminator d"
    by (auto simp: vrs_pattern_match_def Let_def split: if_splits)
  from pre have s: "s = ''ga4gh:VA:'' @ ?rest"
    by (auto simp: prefix_def)
  from ne(2) have "\<not> ?P (hd (dropWhile ?P ?rest))"
    by (rule hd_dropWhile)
  with ne(2) d have after: "dropWhile ?P ?rest = CHR '':'' # d"
    by (cases "dropWhile ?P ?rest") auto
  have "?rest = takeWhile ?P ?rest @ dropWhile ?P ?rest"
    by simp
  with c after have rest: "?rest = c @ '':'' @ d"
    by simp
  have "CHR '':'' \<notin> set c"
    unfolding c by (auto dest: set_takeWhileD)
  with s rest ne show ?thesis
    by metis
qed

lemma vrs_pattern_match_SomeI:
  assumes "c \<noteq> []" "CHR '':'' \<notin> set c" "d \<noteq> []" "\<not> has_line_terminator d"
  shows "vrs_pattern_match (''ga4gh:VA:'' @ c @ '':'' @ d) = Some (c, d)"
proof -
  let ?P = "\<lambda>ch. ch \<noteq> CHR '':''"
  from assms(2) have all: "\<And>x. x \<in> set c \<Longrightarrow> ?P x"
    by auto
  have tw: "takeWhile ?P (c @ CHR '':'' # d) = c"
    using all by (simp add: takeWhile_append2)
  have dw: "dropWhile ?P (c @ CHR '':'' # d) = CHR '':'' # d"
    using all by (simp add: dropWhile_append2)
  show ?thesis
    using assms tw dw by (simp add: vrs_pattern_match_def)
qed

lemma vrs_pattern_match_Some_iff:
  "vrs_pattern_match s = Some (c, d) \<longleftrightarrow>
     s = ''ga4gh:VA:'' @ c @ '':'' @ d \<and> c \<noteq> [] \<and> CHR '':'' \<notin> set c \<and> d \<noteq> []
     \<and> \<not> has_line_terminator d"
  using vrs_pattern_match_SomeD vrs_pattern_match_SomeI by blast

lemma isValidVrsId_iff_match: "isValidVrsId s \<longleftrightarrow> (\<exists>c d. vrs_pattern_match s = Some (c, d))"
proof (cases "s = []")
  case True
  then show ?thesis by (simp add: isValidVrsId_def vrs_pattern_match_def)
next
  case False
  then show ?thesis by (auto simp: isValidVrsId_def)
qed

lemma parseVrsId_valid:
  "vrs_pattern_match s = Some (c, d) \<Longrightarrow>
     parseVrsId s = Inr \<lparr>chromosome = c, digest = d, type = ''VA''\<rparr>"
  using isValidVrsId_iff_match [of s] by (simp add: parseVrsId_def)

lemma parseVrsId_invalid:
  "\<not> isValidVrsId s \<Longrightarrow> parseVrsId s = Inl (Error (''Invalid VRS ID: '' @ s))"
  by (simp add: parseVrsId_def)

section \<open>Validation, parsing and error propagation\<close>

lemma isValidVrsId_prefix: "isValidVrsId s \<Longrightarrow> prefix ''ga4gh:VA:'' s"
  by (auto simp: isValidVrsId_def vrs_pattern_match_def split: if_splits)

lemma getChromosomeFromVrsId_Inl: "getChromosomeFromVrsId s = Inl e \<longleftrightarrow> parseVrsId s = Inl e"
  by (simp add: getChromosomeFromVrsId_def split: sum.splits)

lemma getSqlTableForVariant_Inl: "getSqlTableForVariant toLowerCase s = Inl e \<longleftrightarrow> parseVrsId s = Inl e"
proof -
  have "getSqlTableForVariant toLowerCase s = Inl e \<longleftrightarrow> getChromosomeFromVrsId s = Inl e"
    by (cases "getChromosomeFromVrsId s") (simp_all add: getSqlTableForVariant_def)
  then show ?thesis
    by (simp add: getChromosomeFromVrsId_Inl)
qed

lemma buildVariantQuery_Inl: "buildVariantQuery toLowerCase s = Inl e \<longleftrightarrow> parseVrsId s = Inl e"
proof (cases "getSqlTableForVariant toLowerCase s")
  case (Inl e')
  then have "buildVariantQuery toLowerCase s = Inl e'"
    by (simp add: buildVariantQuery_def)
  with Inl show ?thesis
    using getSqlTableForVariant_Inl [of toLowerCase s e'] by auto
next
  case (Inr t)
  show ?thesis
  proof (cases "getChromosomeFromVrsId s")
    case (Inl e')
    with Inr show ?thesis
      using getSqlTableForVariant_Inl [of toLowerCase s e'] getChromosomeFromVrsId_Inl [of s e'] by simp
  next
    case inr: (Inr c)
    with Inr have "\<exists>q. buildVariantQuery toLowerCase s = Inr q"
      by (simp add: buildVariantQuery_def)
    with inr show ?thesis
      using getChromosomeFromVrsId_Inl [of s e] by auto
  qed
qed

lemma parseVrsId_Inl_iff: "(\<exists>e. parseVrsId s = Inl e) \<longleftrightarrow> \<not> isValidVrsId s"
proof
  assume "\<exists>e. parseVrsId s = Inl e"
  show "\<not> isValidVrsId s"
  proof
    assume "isValidVrsId s"
    then obtain c d where "vrs_pattern_match s = Some (c, d)"
      using isValidVrsId_iff_match by blast
    then have "parseVrsId s = Inr \<lparr>chromosome = c, digest = d, type = ''VA''\<rparr>"
      by (rule parseVrsId_valid)
    with \<open>\<exists>e. parseVrsId s = Inl e\<close> show False by auto
  qed
next
  assume "\<not> isValidVrsId s"
  then show "\<exists>e. parseVrsId s = Inl e"
    by (simp add: parseVrsId_invalid)
qed

text \<open>
  Claim C4. \<^const>\<open>isValidVrsId\<close> returns a truth value on every string and rejects the empty
  string. \<^const>\<open>parseVrsId\<close> fails exactly when \<^const>\<open>isValidVrsId\<close> is false, with the
  error \<^verbatim>\<open>Invalid VRS ID\<close>; on a valid identifier the chromosome is the colon-free segment
  after \<^verbatim>\<open>ga4gh:VA:\<close>, the digest is everything after the third colon and the type is
  \<^verbatim>\<open>VA\<close>. \<^const>\<open>getChromosomeFromVrsId\<close>, \<^const>\<open>getSqlTableForVariant\<close> and
  \<^const>\<open>buildVariantQuery\<close> fail with the same error on the same inputs.
\<close>

theorem parse_fails_exactly_when_invalid:
  "\<not> isValidVrsId []
   \<and> ((\<exists>e. parseVrsId vrsId = Inl e) \<longleftrightarrow> \<not> isValidVrsId vrsId)
   \<and> (\<not> isValidVrsId vrsId \<longrightarrow> parseVrsId vrsId = Inl (Error (''Invalid VRS ID: '' @ vrsId)))
   \<and> (isValidVrsId vrsId \<longrightarrow>
        (\<exists>c d. vrsId = ''ga4gh:VA:'' @ c @ '':'' @ d \<and> c \<noteq> [] \<and> CHR '':'' \<notin> set c
           \<and> parseVrsId vrsId = Inr \<lparr>chromosome = c, digest = d, type = ''VA''\<rparr>))
   \<and> (getChromosomeFromVrsId vrsId = Inl e \<longleftrightarrow> parseVrsId vrsId = Inl e)
   \<and> (getSqlTableForVariant toLowerCase vrsId = Inl e \<longleftrightarrow> parseVrsId vrsId = Inl e)
   \<and> (buildVariantQuery toLowerCase vrsId = Inl e \<longleftrightarrow> parseVrsId vrsId = Inl e)"
proof -
  have empty: "\<not> isValidVrsId []"
    by (simp add: isValidVrsId_def)
  have valid: "\<exists>c d. vrsId = ''ga4gh:VA:'' @ c @ '':'' @ d \<and> c \<noteq> [] \<and> CHR '':'' \<notin> set c
           \<and> parseVrsId vrsId = Inr \<lparr>chromosome = c, digest = d, type = ''VA''\<rparr>"
    if "isValidVrsId vrsId"
  proof -
    from that obtain c d where m: "vrs_pattern_match vrsId = Some (c, d)"
      using isValidVrsId_iff_match by blast
    from vrs_pattern_match_SomeD [OF m] parseVrsId_valid [OF m] show ?thesis
      by blast
  qed
  from empty valid show ?thesis
    by (simp add: parseVrsId_Inl_iff parseVrsId_invalid getChromosomeFromVrsId_Inl
        getSqlTableForVariant_Inl buildVariantQuery_Inl)
qed

theorem parse_fails_exactly_when_invalid_witness:
  "isValidVrsId ''ga4gh:VA:7:v9TQXvNOQeG1vNRVJCWlD_a1tRf_m2AP''
   \<and> parseVrsId ''ga4gh:VA:7:v9TQXvNOQeG1vNRVJCWlD_a1tRf_m2AP'' =
       Inr \<lparr>chromosome = ''7'', digest = ''v9TQXvNOQeG1vNRVJCWlD_a1tRf_m2AP'', type = ''VA''\<rparr>
   \<and> \<not> isValidVrsId ''invalid-vrs-id''
   \<and> buildVariantQuery ascii_toLowerCase ''invalid-vrs-id'' =
       Inl (Error ''Invalid VRS ID: invalid-vrs-id'')"
proof -
  have v: "isValidVrsId ''ga4gh:VA:7:v9TQXvNOQeG1vNRVJCWlD_a1tRf_m2AP''"
    by (simp add: isValidVrsId_def vrs_pattern_match_def)
  have i: "\<not> isValidVrsId ''invalid-vrs-id''"
    by (simp add: isValidVrsId_def vrs_pattern_match_def)
  from v
    parse_fails_exactly_when_invalid [where vrsId = "''ga4gh:VA:7:v9TQXvNOQeG1vNRVJCWlD_a1tRf_m2AP''"
        and e = "Error []" and toLowerCase = ascii_toLowerCase]
  obtain c d where cd: "''ga4gh:VA:7:v9TQXvNOQeG1vNRVJCWlD_a1tRf_m2AP'' = ''ga4gh:VA:'' @ c @ '':'' @ d"
    "CHR '':'' \<notin> set c"
    "parseVrsId ''ga4gh:VA:7:v9TQXvNOQeG1vNRVJCWlD_a1tRf_m2AP'' =
       Inr \<lparr>chromosome = c, digest = d, type = ''VA''\<rparr>"
    by blast
  from cd(1,2) have "c = ''7'' \<and> d = ''v9TQXvNOQeG1vNRVJCWlD_a1tRf_m2AP''"
    by (cases c; cases "tl c") auto
  with cd(3) v i
    parse_fails_exactly_when_invalid [where vrsId = "''invalid-vrs-id''"
        and e = "Error ''Invalid VRS ID: invalid-vrs-id''" and toLowerCase = ascii_toLowerCase]
  show ?thesis
    by simp
qed

text \<open>
  Claim C5 says that an identifier with another tag than \<^verbatim>\<open>VA\<close> is accepted. The pattern
  holds the literal \<^verbatim>\<open>VA\<close>: \<^verbatim>\<open>ga4gh:XX:7:digest\<close> is rejected and does not parse.
\<close>

theorem non_VA_tag_counterexample:
  "\<not> isValidVrsId ''ga4gh:XX:7:digest''
   \<and> parseVrsId ''ga4gh:XX:7:digest'' = Inl (Error ''Invalid VRS ID: ga4gh:XX:7:digest'')"
  by (simp add: parseVrsId_def isValidVrsId_def vrs_pattern_match_def)

lemma VA_prefix_tag:
  assumes "prefix ''VA:'' (t @ '':'' @ rest)" "CHR '':'' \<notin> set t"
  shows "t = ''VA''"
proof (cases t)
  case Nil
  with assms show ?thesis by simp
next
  case (Cons x t1)
  note t = this
  show ?thesis
  proof (cases t1)
    case Nil
    with t assms show ?thesis by simp
  next
    case (Cons y t2)
    with t assms show ?thesis by (cases t2) auto
  qed
qed

text \<open>
  Claim C5, amended. Every valid identifier starts with \<^verbatim>\<open>ga4gh:VA:\<close> and parses with the
  type \<^verbatim>\<open>VA\<close>; an identifier \<^verbatim>\<open>ga4gh:<tag>:<rest>\<close> whose colon-free tag is not
  \<^verbatim>\<open>VA\<close> is rejected by \<^const>\<open>isValidVrsId\<close>, and \<^const>\<open>parseVrsId\<close> fails on it.
\<close>

theorem tag_must_be_VA:
  "(isValidVrsId vrsId \<longrightarrow>
      prefix ''ga4gh:VA:'' vrsId \<and> (\<exists>c. parseVrsId vrsId = Inr c \<and> type c = ''VA''))
   \<and> (CHR '':'' \<notin> set tag \<and> tag \<noteq> ''VA'' \<longrightarrow>
        \<not> isValidVrsId (''ga4gh:'' @ tag @ '':'' @ rest)
        \<and> parseVrsId (''ga4gh:'' @ tag @ '':'' @ rest) =
            Inl (Error (''Invalid VRS ID: '' @ ''ga4gh:'' @ tag @ '':'' @ rest)))"
proof -
  have a: "prefix ''ga4gh:VA:'' vrsId \<and> (\<exists>c. parseVrsId vrsId = Inr c \<and> type c = ''VA'')"
    if "isValidVrsId vrsId"
  proof -
    from that obtain c d where "vrs_pattern_match vrsId = Some (c, d)"
      using isValidVrsId_iff_match by blast
    then have "parseVrsId vrsId = Inr \<lparr>chromosome = c, digest = d, type = ''VA''\<rparr>"
      by (rule parseVrsId_valid)
    with that show ?thesis
      by (simp add: isValidVrsId_prefix)
  qed
  have b: "\<not> isValidVrsId (''ga4gh:'' @ tag @ '':'' @ rest)"
    if "CHR '':'' \<notin> set tag" "tag \<noteq> ''VA''"
  proof
    assume "isValidVrsId (''ga4gh:'' @ tag @ '':'' @ rest)"
    then have "prefix ''ga4gh:VA:'' (''ga4gh:'' @ tag @ '':'' @ rest)"
      by (rule isValidVrsId_prefix)
    then have "prefix ''VA:'' (tag @ '':'' @ rest)"
      by simp
    with that show False
      using VA_prefix_tag by blast
  qed
  from a b show ?thesis
    by (simp add: parseVrsId_invalid)
qed

theorem tag_must_be_VA_witness:
  "isValidVrsId ''ga4gh:VA:7:digest''
   \<and> parseVrsId ''ga4gh:VA:7:digest'' = Inr \<lparr>chromosome = ''7'', digest = ''digest'', type = ''VA''\<rparr>
   \<and> \<not> isValidVrsId ''ga4gh:VB:7:digest''"
proof -
  have v: "isValidVrsId ''ga4gh:VA:7:digest''"
    by (simp add: isValidVrsId_def vrs_pattern_match_def)
  have p: "parseVrsId ''ga4gh:VA:7:digest'' = Inr \<lparr>chromosome = ''7'', digest = ''digest'', type = ''VA''\<rparr>"
    by (simp add: parseVrsId_def isValidVrsId_def vrs_pattern_match_def)
  from v p tag_must_be_VA [of "''ga4gh:VA:7:digest''" "''VB''" "''7:digest''"]
  show ?thesis
    by simp
qed

text \<open>
  Claim C9. The fifth parameter \<^verbatim>\<open>assembly\<close> of \<^const>\<open>generateVrsId\<close> is never used: two
  calls that differ in it alone return the same identifier.
\<close>

theorem assembly_is_ignored:
  "generateVrsId chrom pos ref alt assembly1 = generateVrsId chrom pos ref alt assembly2"
  by (simp add: generateVrsId_def)

text \<open>
  Claim C2. For every position and pair of alleles the chromosome spellings \<^verbatim>\<open>chr7\<close> and
  \<^verbatim>\<open>7\<close>, \<^verbatim>\<open>chrM\<close> and \<^verbatim>\<open>MT\<close>, \<^verbatim>\<open>chrUn\<close> and \<^verbatim>\<open>Un\<close> give the same identifier:
  \<^const>\<open>normalizeChromosome\<close> strips a lowercase \<^verbatim>\<open>chr\<close> and then maps \<^verbatim>\<open>M\<close> and
  \<^verbatim>\<open>MT\<close> to \<^verbatim>\<open>MT\<close> and \<^verbatim>\<open>Un\<close> to \<^verbatim>\<open>UN\<close>; \<^verbatim>\<open>ChrX\<close> is not stripped.
\<close>

theorem chromosome_spellings_agree:
  "generateVrsId ''chr7'' pos ref alt assembly = generateVrsId ''7'' pos ref alt assembly
   \<and> generateVrsId ''chrM'' pos ref alt assembly = generateVrsId ''MT'' pos ref alt assembly
   \<and> generateVrsId ''chrUn'' pos ref alt assembly = generateVrsId ''Un'' pos ref alt assembly
   \<and> normalizeChromosome ''chr7'' = ''7''
   \<and> normalizeChromosome ''chrM'' = ''MT'' \<and> normalizeChromosome ''M'' = ''MT''
   \<and> normalizeChromosome ''chrMT'' = ''MT'' \<and> normalizeChromosome ''MT'' = ''MT''
   \<and> normalizeChromosome ''chrUn'' = ''UN'' \<and> normalizeChromosome ''Un'' = ''UN''
   \<and> normalizeChromosome ''ChrX'' = ''ChrX''"
  by (simp add: generateVrsId_def normalizeChromosome_def)

section \<open>The digest segment\<close>

text \<open>The digest of SHA-512 has 64 bytes, whatever the message.\<close>

lemma length_be_bytes: "length (be_bytes n v) = n"
  by (induction n) simp_all

lemma length_digest_bytes: "length (digest_bytes s) = 64"
  by (induction s rule: digest_bytes.induct) (simp add: length_be_bytes)

lemma length_sha512: "length (sha512 m) = 64"
  by (simp add: sha512_def length_digest_bytes)

text \<open>
  A byte string of whole groups of three bytes is encoded without padding, four characters
  of the alphabet for each group.
\<close>

lemma sextet_in_alphabet: "sextet n i \<in> set b64_alphabet"
proof -
  have "length b64_alphabet = 64"
    by (simp add: b64_alphabet_def)
  then have "(n div 64 ^ i) mod 64 < length b64_alphabet"
    by simp
  then show ?thesis
    unfolding sextet_def by (rule nth_mem)
qed

lemma base64_whole_groups:
  "length bs = 3 * n \<Longrightarrow>
     length (base64 bs) = 4 * n \<and> set (base64 bs) \<subseteq> set b64_alphabet"
proof (induction bs arbitrary: n rule: base64.induct)
  case 1
  then show ?case by simp
next
  case (2 b0)
  then have "3 * n = 1" by simp
  then show ?case by presburger
next
  case (3 b0 b1)
  then have "3 * n = 2" by simp
  then show ?case by presburger
next
  case (4 b0 b1 b2 bs)
  from 4(2) obtain m where m: "n = Suc m" "length bs = 3 * m"
    by (cases n) auto
  from 4(1) [OF m(2)] m(1) show ?case
    by (simp add: sextet_in_alphabet)
qed

text \<open>Making the encoding URL-safe.\<close>

lemma strip_padding_none: "CHR ''='' \<notin> set s \<Longrightarrow> strip_padding s = s"
proof -
  assume a: "CHR ''='' \<notin> set s"
  have "dropWhile (\<lambda>c. c = CHR ''='') (rev s) = rev s"
  proof (cases "rev s")
    case Nil
    then show ?thesis by simp
  next
    case (Cons x xs)
    then have "x \<in> set s"
      by (metis list.set_intros(1) set_rev)
    with a have "x \<noteq> CHR ''=''"
      by auto
    with Cons show ?thesis by simp
  qed
  then show ?thesis
    by (simp add: strip_padding_def)
qed

lemma url_alphabet_other:
  "c \<in> set b64_alphabet \<Longrightarrow> c \<noteq> CHR ''+'' \<Longrightarrow> c \<noteq> CHR ''/'' \<Longrightarrow> c \<in> set url_alphabet"
  by (auto simp: b64_alphabet_def url_alphabet_def)

lemma url_alphabet_replaced: "CHR ''-'' \<in> set url_alphabet" "CHR ''_'' \<in> set url_alphabet"
  by (simp_all add: url_alphabet_def)

lemma url_safe_replace:
  assumes "set s \<subseteq> set b64_alphabet"
  shows "set (replace_all CHR ''/'' CHR ''_'' (replace_all CHR ''+'' CHR ''-'' s)) \<subseteq> set url_alphabet"
  using assms by (auto simp: replace_all_def url_alphabet_replaced intro: url_alphabet_other)

lemma url_safe_digest_shape:
  "length (url_safe_digest data) = 32 \<and> set (url_safe_digest data) \<subseteq> set url_alphabet"
proof -
  let ?bs = "take 24 (sha512 (utf8 data))"
  let ?r = "replace_all CHR ''/'' CHR ''_'' (replace_all CHR ''+'' CHR ''-'' (base64 ?bs))"
  have len: "length ?bs = 24"
    by (simp add: length_sha512)
  then have "length ?bs = 3 * 8"
    by simp
  from base64_whole_groups [OF this]
  have b: "length (base64 ?bs) = 32" "set (base64 ?bs) \<subseteq> set b64_alphabet"
    by simp_all
  from b(2) have u: "set ?r \<subseteq> set url_alphabet"
    by (rule url_safe_replace)
  have "CHR ''='' \<notin> set url_alphabet"
    by (simp add: url_alphabet_def)
  with u have "CHR ''='' \<notin> set ?r"
    by auto
  then have "strip_padding ?r = ?r"
    by (rule strip_padding_none)
  with b(1) u show ?thesis
    by (simp add: url_safe_digest_def replace_all_def)
qed

text \<open>The two forms of identifier that \<^const>\<open>generateVrsId\<close> returns.\<close>

lemma generateVrsId_standard:
  "ref \<noteq> ''*'' \<Longrightarrow> alt \<noteq> ''*'' \<Longrightarrow>
     generateVrsId chrom pos ref alt assembly =
       ''ga4gh:VA:'' @ normalizeChromosome chrom @ '':''
       @ url_safe_digest (normalizeChromosome chrom @ '':'' @ pos_text pos @ '':'' @ ref @ '':'' @ alt)"
  by (simp add: generateVrsId_def url_safe_digest_def Let_def)

lemma generateVrsId_special:
  "ref = ''*'' \<or> alt = ''*'' \<Longrightarrow>
     generateVrsId chrom pos ref alt assembly =
       ''ga4gh:VA:SPECIAL:'' @ normalizeChromosome chrom @ ''-'' @ pos_text pos @ ''-'' @ ref
       @ ''-'' @ alt"
  by (auto simp: generateVrsId_def Let_def)

text \<open>
  Claim C7. When neither allele is the wildcard \<^verbatim>\<open>*\<close>, the digest segment of the
  identifier has exactly 32 characters, all of them letters, digits, \<^verbatim>\<open>_\<close> or \<^verbatim>\<open>-\<close>: the
  24 bytes kept of the hash encode to 32 base64 characters without padding, and the
  replacements make them URL-safe.
\<close>

theorem digest_is_32_url_safe_characters:
  assumes "ref \<noteq> ''*''" and "alt \<noteq> ''*''"
  shows "\<exists>d. generateVrsId chrom pos ref alt assembly =
              ''ga4gh:VA:'' @ normalizeChromosome chrom @ '':'' @ d
           \<and> d = url_safe_digest (normalizeChromosome chrom @ '':'' @ pos_text pos @ '':'' @ ref
                    @ '':'' @ alt)
           \<and> length d = 32
           \<and> set d \<subseteq> set ''ABCDEFGHIJKLMNOPQRSTUVWXYZabcdefghijklmnopqrstuvwxyz0123456789_-''
           \<and> length (take 24 (sha512 (utf8 (normalizeChromosome chrom @ '':'' @ pos_text pos
                 @ '':'' @ ref @ '':'' @ alt)))) = 24
           \<and> length (base64 (take 24 (sha512 (utf8 (normalizeChromosome chrom @ '':''
                 @ pos_text pos @ '':'' @ ref @ '':'' @ alt))))) = 32
           \<and> CHR ''='' \<notin> set (base64 (take 24 (sha512 (utf8 (normalizeChromosome chrom @ '':''
                 @ pos_text pos @ '':'' @ ref @ '':'' @ alt)))))"
proof -
  let ?data = "normalizeChromosome chrom @ '':'' @ pos_text pos @ '':'' @ ref @ '':'' @ alt"
  let ?bs = "take 24 (sha512 (utf8 ?data))"
  have len: "length ?bs = 24"
    by (simp add: length_sha512)
  then have "length ?bs = 3 * 8"
    by simp
  from base64_whole_groups [OF this]
  have b: "length (base64 ?bs) = 32" "set (base64 ?bs) \<subseteq> set b64_alphabet"
    by simp_all
  have "CHR ''='' \<notin> set b64_alphabet"
    by (simp add: b64_alphabet_def)
  with b(2) have nopad: "CHR ''='' \<notin> set (base64 ?bs)"
    by auto
  have "set url_alphabet = set ''ABCDEFGHIJKLMNOPQRSTUVWXYZabcdefghijklmnopqrstuvwxyz0123456789_-''"
    by (auto simp: url_alphabet_def)
  with url_safe_digest_shape [of ?data]
  have shape: "length (url_safe_digest ?data) = 32"
    "set (url_safe_digest ?data) \<subseteq> set ''ABCDEFGHIJKLMNOPQRSTUVWXYZabcdefghijklmnopqrstuvwxyz0123456789_-''"
    by simp_all
  from generateVrsId_standard [OF assms] shape len b(1) nopad show ?thesis
    by blast
qed

theorem digest_is_32_url_safe_characters_witness:
  "''C'' \<noteq> ''*'' \<and> ''T'' \<noteq> ''*''
   \<and> (\<exists>d. generateVrsId ''chr17'' (PosNumber 31350290) ''C'' ''T'' ''GRCh38'' = ''ga4gh:VA:17:'' @ d
          \<and> length d = 32
          \<and> set d \<subseteq> set ''ABCDEFGHIJKLMNOPQRSTUVWXYZabcdefghijklmnopqrstuvwxyz0123456789_-'')"
proof -
  have n: "normalizeChromosome ''chr17'' = ''17''"
    by (simp add: normalizeChromosome_def)
  have h: "''C'' \<noteq> ''*''" "''T'' \<noteq> ''*''"
    by simp_all
  from digest_is_32_url_safe_characters [OF h, of "''chr17''" "PosNumber 31350290" "''GRCh38''"]
  show ?thesis
    unfolding n by auto
qed

section \<open>The special form\<close>

lemma special_match:
  "vrs_pattern_match (''ga4gh:VA:SPECIAL:'' @ t) =
     (if t \<noteq> [] \<and> \<not> has_line_terminator t then Some (''SPECIAL'', t) else None)"
  by (simp add: vrs_pattern_match_def)

lemma special_valid_iff:
  assumes "ref = ''*'' \<or> alt = ''*''"
  shows "isValidVrsId (generateVrsId chrom pos ref alt assembly) \<longleftrightarrow>
           \<not> has_line_terminator
               (normalizeChromosome chrom @ ''-'' @ pos_text pos @ ''-'' @ ref @ ''-'' @ alt)"
proof -
  let ?t = "normalizeChromosome chrom @ ''-'' @ pos_text pos @ ''-'' @ ref @ ''-'' @ alt"
  have "?t \<noteq> []"
    by simp
  then have "vrs_pattern_match (''ga4gh:VA:SPECIAL:'' @ ?t) =
               (if \<not> has_line_terminator ?t then Some (''SPECIAL'', ?t) else None)"
    by (simp only: special_match if_True simp_thms)
  then show ?thesis
    unfolding generateVrsId_special [OF assms] by (simp add: isValidVrsId_iff_match)
qed

lemma special_parse:
  assumes "ref = ''*'' \<or> alt = ''*''"
    and "isValidVrsId (generateVrsId chrom pos ref alt assembly)"
  shows "parseVrsId (generateVrsId chrom pos ref alt assembly) =
           Inr \<lparr>chromosome = ''SPECIAL'',
                digest = normalizeChromosome chrom @ ''-'' @ pos_text pos @ ''-'' @ ref
                         @ ''-'' @ alt,
                type = ''VA''\<rparr>"
proof -
  let ?t = "normalizeChromosome chrom @ ''-'' @ pos_text pos @ ''-'' @ ref @ ''-'' @ alt"
  from assms have "\<not> has_line_terminator ?t"
    by (simp add: special_valid_iff)
  then have "vrs_pattern_match (''ga4gh:VA:SPECIAL:'' @ ?t) = Some (''SPECIAL'', ?t)"
    by (simp only: special_match) simp
  then show ?thesis
    unfolding generateVrsId_special [OF assms(1)] by (rule parseVrsId_valid)
qed

text \<open>
  Claim C6 says that every identifier of the special form is valid. The dot of the pattern
  does not match a line feed: with the reference allele \<^verbatim>\<open>A\<close> followed by a line feed and
  the wildcard as alternate allele, the identifier is of the special form and is rejected.
\<close>

theorem special_form_counterexample:
  "generateVrsId ''chr7'' (PosNumber 55174772) [CHR ''A'', CHR 0x0A] ''*'' ''GRCh38'' =
     ''ga4gh:VA:SPECIAL:7-55174772-A'' @ [CHR 0x0A] @ ''-*''
   \<and> \<not> isValidVrsId (generateVrsId ''chr7'' (PosNumber 55174772) [CHR ''A'', CHR 0x0A] ''*'' ''GRCh38'')"
  by (simp add: generateVrsId_def normalizeChromosome_def number_text_def digits.simps
      isValidVrsId_def vrs_pattern_match_def)

text \<open>
  Claim C6, amended. When an allele is the wildcard \<^verbatim>\<open>*\<close>, \<^const>\<open>generateVrsId\<close> returns
  \<^verbatim>\<open>ga4gh:VA:SPECIAL:\<close> followed by the canonical chromosome, the position and the two
  alleles joined by \<^verbatim>\<open>-\<close>, without hashing or escaping. This identifier is valid exactly
  when the text after \<^verbatim>\<open>SPECIAL:\<close> holds no line terminator, and then it parses with
  \<^verbatim>\<open>SPECIAL\<close> in the chromosome slot.
\<close>

theorem special_form:
  assumes "ref = ''*'' \<or> alt = ''*''"
  shows "generateVrsId chrom pos ref alt assembly =
           ''ga4gh:VA:SPECIAL:'' @ normalizeChromosome chrom @ ''-'' @ pos_text pos @ ''-'' @ ref
           @ ''-'' @ alt
         \<and> (isValidVrsId (generateVrsId chrom pos ref alt assembly) \<longleftrightarrow>
              \<not> has_line_terminator
                  (normalizeChromosome chrom @ ''-'' @ pos_text pos @ ''-'' @ ref @ ''-'' @ alt))
         \<and> (isValidVrsId (generateVrsId chrom pos ref alt assembly) \<longrightarrow>
              parseVrsId (generateVrsId chrom pos ref alt assembly) =
                Inr \<lparr>chromosome = ''SPECIAL'',
                     digest = normalizeChromosome chrom @ ''-'' @ pos_text pos @ ''-'' @ ref
                              @ ''-'' @ alt,
                     type = ''VA''\<rparr>)"
  using generateVrsId_special [OF assms] special_valid_iff [OF assms] special_parse [OF assms]
  by blast

theorem special_form_witness:
  "generateVrsId ''chr7'' (PosNumber 55174772) ''A'' ''*'' ''GRCh38'' = ''ga4gh:VA:SPECIAL:7-55174772-A-*''
   \<and> isValidVrsId (generateVrsId ''chr7'' (PosNumber 55174772) ''A'' ''*'' ''GRCh38'')
   \<and> parseVrsId (generateVrsId ''chr7'' (PosNumber 55174772) ''A'' ''*'' ''GRCh38'') =
       Inr \<lparr>chromosome = ''SPECIAL'', digest = ''7-55174772-A-*'', type = ''VA''\<rparr>"
proof -
  have n: "normalizeChromosome ''chr7'' = ''7''"
    by (simp add: normalizeChromosome_def)
  have p: "pos_text (PosNumber 55174772) = ''55174772''"
    by (simp add: number_text_def digits.simps)
  have h: "''A'' = ''*'' \<or> ''*'' = ''*''"
    by simp
  from special_form [OF h, of "''chr7''" "PosNumber 55174772" "''GRCh38''"]
  show ?thesis
    unfolding n p by auto
qed

section \<open>Round trip through the parser\<close>

lemma no_line_terminator_url_safe:
  "set s \<subseteq> set url_alphabet \<Longrightarrow> \<not> has_line_terminator s"
proof (induction s)
  case Nil
  then show ?case by simp
next
  case (Cons c s)
  then have "c \<in> set url_alphabet"
    by simp
  then have "c \<noteq> CHR 0x0A \<and> c \<noteq> CHR 0x0D \<and> c \<noteq> CHR 0xE2"
    by (auto simp: url_alphabet_def)
  with Cons show ?case
    by auto
qed

lemma url_safe_digest_matches:
  "url_safe_digest data \<noteq> [] \<and> \<not> has_line_terminator (url_safe_digest data)"
  using url_safe_digest_shape [of data] no_line_terminator_url_safe [of "url_safe_digest data"]
  by auto

lemma empty_chromosome_no_match: "vrs_pattern_match (''ga4gh:VA:'' @ [] @ '':'' @ d) = None"
  by (simp add: vrs_pattern_match_def)

text \<open>
  Claim C3 says that every generated identifier is valid and parses back to the canonical
  chromosome. With a wildcard allele the chromosome slot holds \<^verbatim>\<open>SPECIAL\<close>, not the
  canonical chromosome \<^verbatim>\<open>7\<close>; and the identifier generated for the chromosome \<^verbatim>\<open>chr\<close>,
  whose canonical form is empty, is not valid.
\<close>

theorem round_trip_counterexample:
  "parseVrsId (generateVrsId ''chr7'' (PosNumber 55174772) ''A'' ''*'' ''GRCh38'') =
       Inr \<lparr>chromosome = ''SPECIAL'', digest = ''7-55174772-A-*'', type = ''VA''\<rparr>
   \<and> normalizeChromosome ''chr7'' \<noteq> ''SPECIAL''
   \<and> \<not> isValidVrsId (generateVrsId ''chr'' (PosNumber 55174772) ''A'' ''G'' ''GRCh38'')"
proof -
  have a: "parseVrsId (generateVrsId ''chr7'' (PosNumber 55174772) ''A'' ''*'' ''GRCh38'') =
       Inr \<lparr>chromosome = ''SPECIAL'', digest = ''7-55174772-A-*'', type = ''VA''\<rparr>"
    by (simp add: generateVrsId_def normalizeChromosome_def number_text_def digits.simps
        parseVrsId_def isValidVrsId_def vrs_pattern_match_def)
  have b: "normalizeChromosome ''chr7'' \<noteq> ''SPECIAL''"
    by (simp add: normalizeChromosome_def)
  have n: "normalizeChromosome ''chr'' = []"
    by (simp add: normalizeChromosome_def)
  have "generateVrsId ''chr'' (PosNumber 55174772) ''A'' ''G'' ''GRCh38'' =
          ''ga4gh:VA:'' @ [] @ '':''
          @ url_safe_digest ([] @ '':'' @ pos_text (PosNumber 55174772) @ '':'' @ ''A'' @ '':'' @ ''G'')"
    using generateVrsId_standard [of "''A''" "''G''" "''chr''" "PosNumber 55174772" "''GRCh38''"]
    unfolding n by simp
  then have c: "\<not> isValidVrsId (generateVrsId ''chr'' (PosNumber 55174772) ''A'' ''G'' ''GRCh38'')"
    by (simp only: isValidVrsId_iff_match empty_chromosome_no_match) simp
  from a b c show ?thesis
    by blast
qed

text \<open>
  Claim C3, amended. When neither allele is the wildcard, the generated identifier is valid
  and parses to the canonical chromosome exactly when the canonical chromosome is not empty
  and contains no colon. When an allele is the wildcard, a generated identifier that is
  valid parses to \<^verbatim>\<open>SPECIAL\<close> in place of the chromosome.
\<close>

theorem round_trip:
  "(ref \<noteq> ''*'' \<and> alt \<noteq> ''*'' \<longrightarrow>
      ((isValidVrsId (generateVrsId chrom pos ref alt assembly)
        \<and> (\<exists>components. parseVrsId (generateVrsId chrom pos ref alt assembly) = Inr components
              \<and> chromosome components = normalizeChromosome chrom))
       \<longleftrightarrow> normalizeChromosome chrom \<noteq> [] \<and> CHR '':'' \<notin> set (normalizeChromosome chrom)))
   \<and> ((ref = ''*'' \<or> alt = ''*'') \<and> isValidVrsId (generateVrsId chrom pos ref alt assembly) \<longrightarrow>
        (\<exists>components. parseVrsId (generateVrsId chrom pos ref alt assembly) = Inr components
           \<and> chromosome components = ''SPECIAL''))"
proof (intro conjI impI)
  let ?id = "generateVrsId chrom pos ref alt assembly"
  let ?c = "normalizeChromosome chrom"
  let ?d = "url_safe_digest (?c @ '':'' @ pos_text pos @ '':'' @ ref @ '':'' @ alt)"
  assume std: "ref \<noteq> ''*'' \<and> alt \<noteq> ''*''"
  show "(isValidVrsId ?id \<and> (\<exists>components. parseVrsId ?id = Inr components
                \<and> chromosome components = ?c))
        \<longleftrightarrow> ?c \<noteq> [] \<and> CHR '':'' \<notin> set ?c"
  proof
    assume "isValidVrsId ?id \<and> (\<exists>components. parseVrsId ?id = Inr components
                \<and> chromosome components = ?c)"
    then obtain components where v: "isValidVrsId ?id"
      and p: "parseVrsId ?id = Inr components" "chromosome components = ?c"
      by blast
    from v obtain c d where m: "vrs_pattern_match ?id = Some (c, d)"
      using isValidVrsId_iff_match by blast
    from parseVrsId_valid [OF m] p have "c = ?c"
      by auto
    with vrs_pattern_match_SomeD [OF m] show "?c \<noteq> [] \<and> CHR '':'' \<notin> set ?c"
      by simp
  next
    assume c: "?c \<noteq> [] \<and> CHR '':'' \<notin> set ?c"
    have id: "?id = ''ga4gh:VA:'' @ ?c @ '':'' @ ?d"
      using std by (simp add: generateVrsId_standard)
    from c url_safe_digest_matches [of "?c @ '':'' @ pos_text pos @ '':'' @ ref @ '':'' @ alt"]
    have m: "vrs_pattern_match ?id = Some (?c, ?d)"
      unfolding id by (intro vrs_pattern_match_SomeI) simp_all
    then have "isValidVrsId ?id"
      using isValidVrsId_iff_match by blast
    with parseVrsId_valid [OF m]
    show "isValidVrsId ?id \<and> (\<exists>components. parseVrsId ?id = Inr components
                  \<and> chromosome components = ?c)"
      by simp
  qed
next
  assume "(ref = ''*'' \<or> alt = ''*'') \<and> isValidVrsId (generateVrsId chrom pos ref alt assembly)"
  then have "parseVrsId (generateVrsId chrom pos ref alt assembly) =
           Inr \<lparr>chromosome = ''SPECIAL'',
                digest = normalizeChromosome chrom @ ''-'' @ pos_text pos @ ''-'' @ ref
                         @ ''-'' @ alt,
                type = ''VA''\<rparr>"
    by (simp add: special_parse)
  then show "\<exists>components. parseVrsId (generateVrsId chrom pos ref alt assembly) = Inr components
           \<and> chromosome components = ''SPECIAL''"
    by simp
qed

theorem round_trip_witness:
  "isValidVrsId (generateVrsId ''chrX'' (PosNumber 66765158) ''T'' ''C'' ''GRCh38'')
   \<and> (\<exists>components. parseVrsId (generateVrsId ''chrX'' (PosNumber 66765158) ''T'' ''C'' ''GRCh38'')
         = Inr components \<and> chromosome components = ''X'')
   \<and> isValidVrsId (generateVrsId ''chrX'' (PosNumber 66765158) ''T'' ''*'' ''GRCh38'')
   \<and> (\<exists>components. parseVrsId (generateVrsId ''chrX'' (PosNumber 66765158) ''T'' ''*'' ''GRCh38'')
         = Inr components \<and> chromosome components = ''SPECIAL'')"
proof -
  have n: "normalizeChromosome ''chrX'' = ''X''"
    by (simp add: normalizeChromosome_def)
  have v: "isValidVrsId (generateVrsId ''chrX'' (PosNumber 66765158) ''T'' ''*'' ''GRCh38'')"
    by (simp add: generateVrsId_def normalizeChromosome_def number_text_def digits.simps
        isValidVrsId_def vrs_pattern_match_def)
  from v round_trip [of "''T''" "''C''" "''chrX''" "PosNumber 66765158" "''GRCh38''"]
    round_trip [of "''T''" "''*''" "''chrX''" "PosNumber 66765158" "''GRCh38''"]
  show ?thesis
    unfolding n by simp
qed

section \<open>Identifiers with an empty chromosome\<close>

lemma invalid_everywhere:
  assumes "\<not> isValidVrsId s"
  shows "parseVrsId s = Inl (Error (''Invalid VRS ID: '' @ s))
         \<and> getChromosomeFromVrsId s = Inl (Error (''Invalid VRS ID: '' @ s))
         \<and> getSqlTableForVariant toLowerCase s = Inl (Error (''Invalid VRS ID: '' @ s))
         \<and> buildVariantQuery toLowerCase s = Inl (Error (''Invalid VRS ID: '' @ s))"
  using parseVrsId_invalid [OF assms]
  by (simp add: getChromosomeFromVrsId_Inl getSqlTableForVariant_Inl buildVariantQuery_Inl)

text \<open>
  Claim C10. When the canonical chromosome is empty (as for the input \<^verbatim>\<open>chr\<close>) and neither
  allele is the wildcard, \<^const>\<open>generateVrsId\<close> returns \<^verbatim>\<open>ga4gh:VA::\<close> followed by the
  digest; \<^const>\<open>isValidVrsId\<close> rejects this identifier, and \<^const>\<open>parseVrsId\<close>,
  \<^const>\<open>getChromosomeFromVrsId\<close>, \<^const>\<open>getSqlTableForVariant\<close> and
  \<^const>\<open>buildVariantQuery\<close> fail on it.
\<close>

theorem empty_chromosome_identifier_is_rejected:
  assumes "normalizeChromosome chrom = []" and "ref \<noteq> ''*''" and "alt \<noteq> ''*''"
  shows "generateVrsId chrom pos ref alt assembly =
           ''ga4gh:VA::'' @ url_safe_digest ('':'' @ pos_text pos @ '':'' @ ref @ '':'' @ alt)
         \<and> \<not> isValidVrsId (generateVrsId chrom pos ref alt assembly)
         \<and> parseVrsId (generateVrsId chrom pos ref alt assembly) =
             Inl (Error (''Invalid VRS ID: '' @ generateVrsId chrom pos ref alt assembly))
         \<and> getChromosomeFromVrsId (generateVrsId chrom pos ref alt assembly) =
             Inl (Error (''Invalid VRS ID: '' @ generateVrsId chrom pos ref alt assembly))
         \<and> getSqlTableForVariant toLowerCase (generateVrsId chrom pos ref alt assembly) =
             Inl (Error (''Invalid VRS ID: '' @ generateVrsId chrom pos ref alt assembly))
         \<and> buildVariantQuery toLowerCase (generateVrsId chrom pos ref alt assembly) =
             Inl (Error (''Invalid VRS ID: '' @ generateVrsId chrom pos ref alt assembly))"
proof -
  let ?id = "generateVrsId chrom pos ref alt assembly"
  let ?d = "url_safe_digest ('':'' @ pos_text pos @ '':'' @ ref @ '':'' @ alt)"
  from generateVrsId_standard [OF assms(2,3), of chrom pos assembly] assms(1)
  have id: "?id = ''ga4gh:VA:'' @ [] @ '':'' @ ?d"
    by simp
  have "vrs_pattern_match ?id = None"
    unfolding id by (rule empty_chromosome_no_match)
  then have inv: "\<not> isValidVrsId ?id"
    by (simp add: isValidVrsId_iff_match)
  from id invalid_everywhere [OF inv] inv show ?thesis
    by simp
qed

theorem empty_chromosome_identifier_is_rejected_witness:
  "normalizeChromosome ''chr'' = []
   \<and> \<not> isValidVrsId (generateVrsId ''chr'' (PosNumber 1234) ''A'' ''G'' ''GRCh38'')
   \<and> buildVariantQuery ascii_toLowerCase
         (generateVrsId ''chr'' (PosNumber 1234) ''A'' ''G'' ''GRCh38'') =
       Inl (Error (''Invalid VRS ID: '' @ generateVrsId ''chr'' (PosNumber 1234) ''A'' ''G'' ''GRCh38''))"
proof -
  have n: "normalizeChromosome ''chr'' = []"
    by (simp add: normalizeChromosome_def)
  have h: "''A'' \<noteq> ''*''" "''G'' \<noteq> ''*''"
    by simp_all
  from n empty_chromosome_identifier_is_rejected [OF n h, where pos = "PosNumber 1234"
      and assembly = "''GRCh38''" and toLowerCase = ascii_toLowerCase]
  show ?thesis
    by blast
qed

section \<open>Table name and query\<close>

text \<open>
  \<^const>\<open>ascii_toLowerCase\<close> adds 32 to the code of each capital from \<^verbatim>\<open>A\<close> (65) to \<^verbatim>\<open>Z\<close>
  (90) and keeps every other character.
\<close>

lemma ascii_lower_char_code:
  "of_char (ascii_lower_char c) =
     (if 65 \<le> (of_char c :: nat) \<and> (of_char c :: nat) \<le> 90 then of_char c + 32
      else (of_char c :: nat))"
  by (cases c) (simp add: ascii_lower_char_def)

lemma ascii_toLowerCase_code:
  "map of_char (ascii_toLowerCase s) =
     map (\<lambda>c. if 65 \<le> (of_char c :: nat) \<and> (of_char c :: nat) \<le> 90 then of_char c + 32
              else (of_char c :: nat)) s"
  by (simp add: ascii_toLowerCase_def ascii_lower_char_code)

text \<open>
  Claim C8. For a valid identifier, whatever the chromosome it holds,
  \<^const>\<open>getSqlTableForVariant\<close> returns \<^verbatim>\<open>variants_chr\<close> followed by the chromosome that
  \<^const>\<open>parseVrsId\<close> extracts, lowercased by the runtime's \<open>toLowerCase\<close>, and
  \<^const>\<open>buildVariantQuery\<close> returns a query containing \<^verbatim>\<open>FROM public.\<close> with that table
  name, \<^verbatim>\<open>WHERE id = @vrsId\<close> and \<^verbatim>\<open>AND chromosome = @chromosome\<close>, with the parameters
  \<^verbatim>\<open>vrsId\<close>, bound to the identifier, and \<^verbatim>\<open>chromosome\<close>, bound to the extracted chromosome.
\<close>

theorem table_name_and_query:
  assumes "isValidVrsId vrsId"
  shows "\<exists>components q.
           parseVrsId vrsId = Inr components
         \<and> getSqlTableForVariant toLowerCase vrsId =
             Inr (''variants_chr'' @ toLowerCase (chromosome components))
         \<and> buildVariantQuery toLowerCase vrsId = Inr q
         \<and> sublist (''FROM public.'' @ ''variants_chr'' @ toLowerCase (chromosome components))
               (query q)
         \<and> sublist ''WHERE id = @vrsId'' (query q)
         \<and> sublist ''AND chromosome = @chromosome'' (query q)
         \<and> params q = [(''vrsId'', vrsId), (''chromosome'', chromosome components)]
         \<and> map_of (params q) ''vrsId'' = Some vrsId
         \<and> map_of (params q) ''chromosome'' = Some (chromosome components)"
proof -
  from assms obtain c d where m: "vrs_pattern_match vrsId = Some (c, d)"
    using isValidVrsId_iff_match by blast
  let ?components = "\<lparr>chromosome = c, digest = d, type = ''VA''\<rparr>"
  let ?table = "''variants_chr'' @ toLowerCase c"
  let ?q = "\<lparr>query = [CHR 0x0A] @ ''    SELECT *'' @ [CHR 0x0A]
                            @ ''    FROM public.'' @ ?table @ [CHR 0x0A]
                            @ ''    WHERE id = @vrsId'' @ [CHR 0x0A]
                            @ ''    AND chromosome = @chromosome'' @ [CHR 0x0A] @ ''  '',
              params = [(''vrsId'', vrsId), (''chromosome'', c)]\<rparr>"
  have p: "parseVrsId vrsId = Inr ?components"
    using m by (rule parseVrsId_valid)
  then have g: "getChromosomeFromVrsId vrsId = Inr c"
    by (simp add: getChromosomeFromVrsId_def)
  then have t: "getSqlTableForVariant toLowerCase vrsId = Inr ?table"
    by (simp add: getSqlTableForVariant_def)
  from g t have b: "buildVariantQuery toLowerCase vrsId = Inr ?q"
    by (simp add: buildVariantQuery_def)
  have s1: "sublist (''FROM public.'' @ ?table) (query ?q)"
    unfolding sublist_def
    by (rule exI [of _ "[CHR 0x0A] @ ''    SELECT *'' @ [CHR 0x0A] @ ''    ''"],
        rule exI [of _ "[CHR 0x0A] @ ''    WHERE id = @vrsId'' @ [CHR 0x0A]
                            @ ''    AND chromosome = @chromosome'' @ [CHR 0x0A] @ ''  ''"]) simp
  have s2: "sublist ''WHERE id = @vrsId'' (query ?q)"
    unfolding sublist_def
    by (rule exI [of _ "[CHR 0x0A] @ ''    SELECT *'' @ [CHR 0x0A]
                            @ ''    FROM public.'' @ ?table @ [CHR 0x0A] @ ''    ''"],
        rule exI [of _ "[CHR 0x0A] @ ''    AND chromosome = @chromosome'' @ [CHR 0x0A] @ ''  ''"]) simp
  have s3: "sublist ''AND chromosome = @chromosome'' (query ?q)"
    unfolding sublist_def
    by (rule exI [of _ "[CHR 0x0A] @ ''    SELECT *'' @ [CHR 0x0A]
                            @ ''    FROM public.'' @ ?table @ [CHR 0x0A]
                            @ ''    WHERE id = @vrsId'' @ [CHR 0x0A] @ ''    ''"],
        rule exI [of _ "[CHR 0x0A] @ ''  ''"]) simp
  have q: "params ?q = [(''vrsId'', vrsId), (''chromosome'', c)]"
    "map_of (params ?q) ''vrsId'' = Some vrsId" "map_of (params ?q) ''chromosome'' = Some c"
    by simp_all
  from p t b s1 s2 s3 q show ?thesis
    by (intro exI [of _ ?components] exI [of _ ?q]) simp
qed

theorem table_name_and_query_witness:
  "isValidVrsId ''ga4gh:VA:X:v9TQXvNOQeG1vNRVJCWlD_a1tRf_m2AP''
   \<and> getSqlTableForVariant ascii_toLowerCase ''ga4gh:VA:X:v9TQXvNOQeG1vNRVJCWlD_a1tRf_m2AP'' =
       Inr ''variants_chrx''
   \<and> (\<exists>q. buildVariantQuery ascii_toLowerCase ''ga4gh:VA:X:v9TQXvNOQeG1vNRVJCWlD_a1tRf_m2AP'' = Inr q
          \<and> sublist ''FROM public.variants_chrx'' (query q)
          \<and> sublist ''WHERE id = @vrsId'' (query q)
          \<and> sublist ''AND chromosome = @chromosome'' (query q)
          \<and> params q = [(''vrsId'', ''ga4gh:VA:X:v9TQXvNOQeG1vNRVJCWlD_a1tRf_m2AP''),
                         (''chromosome'', ''X'')])"
proof -
  have v: "isValidVrsId ''ga4gh:VA:X:v9TQXvNOQeG1vNRVJCWlD_a1tRf_m2AP''"
    by (simp add: isValidVrsId_def vrs_pattern_match_def)
  have p: "parseVrsId ''ga4gh:VA:X:v9TQXvNOQeG1vNRVJCWlD_a1tRf_m2AP'' =
             Inr \<lparr>chromosome = ''X'', digest = ''v9TQXvNOQeG1vNRVJCWlD_a1tRf_m2AP'', type = ''VA''\<rparr>"
    by (simp add: parseVrsId_def isValidVrsId_def vrs_pattern_match_def)
  have l: "ascii_toLowerCase ''X'' = ''x''"
    by (simp add: ascii_toLowerCase_def ascii_lower_char_def)
  from table_name_and_query [OF v, where toLowerCase = ascii_toLowerCase] p l v show ?thesis
    by auto
qed

section \<open>Computing the digest\<close>

text \<open>
  Rewrite rules that let the simplifier compute with 64-bit numerals: the low bits of a
  number are what is left after removing its high bits.
\<close>

lemma take_bit_nat_eval: "take_bit n (x::nat) = x - push_bit n (drop_bit n x)"
  by (simp add: take_bit_eq_mod push_bit_eq_mult drop_bit_eq_div minus_div_mult_eq_mod)

lemma add64_eval: "add64 x y = (x + y) - push_bit 64 (drop_bit 64 (x + y))"
  unfolding add64_def by (rule take_bit_nat_eval)

lemma rotr_eval: "rotr n x = drop_bit n x OR push_bit (64 - n) (x - push_bit n (drop_bit n x))"
  unfolding rotr_def by (simp only: take_bit_nat_eval [symmetric])

lemma be_bytes_numeral:
  "be_bytes (numeral k) v =
     take_bit 8 (drop_bit (8 * pred_numeral k) v) # be_bytes (pred_numeral k) v"
  by (simp add: numeral_eq_Suc)

lemma replicate_numeral: "replicate (numeral k) x = x # replicate (pred_numeral k) x"
  by (simp add: numeral_eq_Suc)

lemmas sha512_eval =
  utf8_def pad_def be_bytes_numeral replicate_numeral chunks.simps be_word_def
  schedule_def schedule_step_def next_word_def add64_eval sigma0_def sigma1_def rotr_eval shr_def
  Sigma0_def Sigma1_def Ch_def Maj_def not64_def compress_def sha512_def H512_def K512_def

text \<open>The test vector of FIPS 180-4 for the message \<^verbatim>\<open>abc\<close>.\<close>

lemma sha512_abc:
  "sha512 (utf8 ''abc'') =
     [221, 175, 53, 161, 147, 97, 122, 186, 204, 65, 115, 73, 174, 32, 65, 49,
      18, 230, 250, 78, 137, 169, 126, 162, 10, 158, 238, 230, 75, 85, 211, 154,
      33, 146, 153, 42, 39, 79, 193, 168, 54, 186, 60, 35, 163, 254, 235, 189,
      69, 77, 68, 35, 100, 60, 232, 14, 42, 154, 201, 79, 165, 76, 164, 159]"
  by (simp add: sha512_eval)

text \<open>The digest of the payload of the example of the specification.\<close>

lemma sha512_payload:
  "sha512 (utf8 ''7:55174772:GGAATTAAGAGAAGC:'') =
     [191, 212, 208, 94, 243, 78, 65, 225, 181, 188, 212, 85, 36, 37, 165, 15,
      246, 181, 181, 23, 255, 155, 96, 15, 25, 116, 21, 52, 227, 104, 154, 45,
      154, 167, 6, 185, 232, 197, 131, 51, 67, 213, 216, 114, 123, 218, 30, 213,
      89, 17, 14, 98, 110, 164, 209, 134, 198, 207, 195, 181, 48, 65, 54, 201]"
  by (simp add: sha512_eval)

text \<open>
  Claim C1. For chromosome \<^verbatim>\<open>chr7\<close>, position 55174772, reference \<^verbatim>\<open>GGAATTAAGAGAAGC\<close> and
  an empty alternate allele, the chromosome is canonicalized to \<^verbatim>\<open>7\<close>, the payload is
  \<^verbatim>\<open>7:55174772:GGAATTAAGAGAAGC:\<close>, its SHA-512 digest is cut to the first 24 bytes and
  encoded in URL-safe base64, and the identifier returned is
  \<^verbatim>\<open>ga4gh:VA:7:v9TQXvNOQeG1vNRVJCWlD_a1tRf_m2AP\<close>.
\<close>

theorem generate_chr7_example:
  "normalizeChromosome ''chr7'' = ''7''
   \<and> ''7'' @ '':'' @ pos_text (PosNumber 55174772) @ '':'' @ ''GGAATTAAGAGAAGC'' @ '':'' @ ''''
       = ''7:55174772:GGAATTAAGAGAAGC:''
   \<and> take 24 (sha512 (utf8 ''7:55174772:GGAATTAAGAGAAGC:'')) =
       [191, 212, 208, 94, 243, 78, 65, 225, 181, 188, 212, 85, 36, 37, 165, 15,
        246, 181, 181, 23, 255, 155, 96, 15]
   \<and> base64 [191, 212, 208, 94, 243, 78, 65, 225, 181, 188, 212, 85, 36, 37, 165, 15,
        246, 181, 181, 23, 255, 155, 96, 15] = ''v9TQXvNOQeG1vNRVJCWlD/a1tRf/m2AP''
   \<and> generateVrsId ''chr7'' (PosNumber 55174772) ''GGAATTAAGAGAAGC'' '''' assembly =
       ''ga4gh:VA:7:v9TQXvNOQeG1vNRVJCWlD_a1tRf_m2AP''
   \<and> generateVrsId_default ''chr7'' (PosNumber 55174772) ''GGAATTAAGAGAAGC'' '''' =
       ''ga4gh:VA:7:v9TQXvNOQeG1vNRVJCWlD_a1tRf_m2AP''"
proof -
  have n: "normalizeChromosome ''chr7'' = ''7''"
    by (simp add: normalizeChromosome_def)
  have p: "pos_text (PosNumber 55174772) = ''55174772''"
    by (simp add: number_text_def digits.simps)
  have t: "take 24 (sha512 (utf8 ''7:55174772:GGAATTAAGAGAAGC:'')) =
       [191, 212, 208, 94, 243, 78, 65, 225, 181, 188, 212, 85, 36, 37, 165, 15,
        246, 181, 181, 23, 255, 155, 96, 15]"
    by (simp add: sha512_payload)
  have b: "base64 [191, 212, 208, 94, 243, 78, 65, 225, 181, 188, 212, 85, 36, 37, 165, 15,
        246, 181, 181, 23, 255, 155, 96, 15] = ''v9TQXvNOQeG1vNRVJCWlD/a1tRf/m2AP''"
    by (simp add: sextet_def group24_def b64_alphabet_def)
  have u: "strip_padding (replace_all CHR ''/'' CHR ''_''
             (replace_all CHR ''+'' CHR ''-'' ''v9TQXvNOQeG1vNRVJCWlD/a1tRf/m2AP'')) =
           ''v9TQXvNOQeG1vNRVJCWlD_a1tRf_m2AP''"
    by (simp add: strip_padding_def replace_all_def)
  have g: "generateVrsId ''chr7'' (PosNumber 55174772) ''GGAATTAAGAGAAGC'' '''' a =
       ''ga4gh:VA:7:v9TQXvNOQeG1vNRVJCWlD_a1tRf_m2AP''" for a
    unfolding generateVrsId_def Let_def n p by (simp add: t b u del: base64.simps)
  from n p t b g [of assembly] g [of "''GRCh38''"] show ?thesis
    by (simp add: generateVrsId_default_def del: base64.simps)
qed

end
